theory Spec2Isabelle
  imports Main "HOL-Library.Sublist" "HOL-Library.AList"
begin

section \<open>JavaScript strings, numbers and objects as paperSearch uses them\<close>

text \<open>
  Strings are ASCII character lists. \<open>toLowerCase\<close> and \<open>toUpperCase\<close> map the 26
  letters and leave every other character alone; \<open>string_includes s t\<close> is
  \<^verbatim>\<open>s.includes(t)\<close>, contiguous containment, true for the empty \<open>t\<close>.
\<close>

definition toLowerCase_char :: "char \<Rightarrow> char" where
  "toLowerCase_char c =
     (if (65::nat) \<le> of_char c \<and> of_char c \<le> (90::nat)
      then char_of (of_char c + (32::nat)) else c)"

definition toUpperCase_char :: "char \<Rightarrow> char" where
  "toUpperCase_char c =
     (if (97::nat) \<le> of_char c \<and> of_char c \<le> (122::nat)
      then char_of (of_char c - (32::nat)) else c)"

definition toLowerCase :: "string \<Rightarrow> string" where
  "toLowerCase s = map toLowerCase_char s"

definition toUpperCase :: "string \<Rightarrow> string" where
  "toUpperCase s = map toUpperCase_char s"

fun string_includes :: "string \<Rightarrow> string \<Rightarrow> bool" where
  "string_includes [] t = (t = [])"
| "string_includes (c # cs) t = (prefix t (c # cs) \<or> string_includes cs t)"

text \<open>\<^verbatim>\<open>xs.join(sep)\<close> on an array of strings.\<close>

fun join :: "string \<Rightarrow> string list \<Rightarrow> string" where
  "join sep [] = []"
| "join sep [x] = x"
| "join sep (x # y # ys) = x @ sep @ join sep (y # ys)"

text \<open>
  A JavaScript number that is either an integer or \<open>NaN\<close>. Years, limits and
  statuses are integers well inside the range a double represents exactly.
\<close>

datatype number = NaN | Num int

fun less_number :: "number \<Rightarrow> number \<Rightarrow> bool" where
  "less_number (Num a) (Num b) = (a < b)"
| "less_number _ _ = False"

definition is_digit :: "char \<Rightarrow> bool" where
  "is_digit c = ((48::nat) \<le> of_char c \<and> of_char c \<le> (57::nat))"

definition is_space :: "char \<Rightarrow> bool" where
  "is_space c = (of_char c \<in> {9::nat, 10, 11, 12, 13, 32})"

definition digit_value :: "char \<Rightarrow> int" where
  "digit_value c = int (of_char c) - 48"

definition digits_value :: "string \<Rightarrow> int" where
  "digits_value ds = foldl (\<lambda>acc c. 10 * acc + digit_value c) 0 ds"

text \<open>
  \<^verbatim>\<open>parseInt(s, 10)\<close>: leading white space is skipped, one sign is read, then the
  longest run of decimal digits; with no digit there the result is \<open>NaN\<close>.
\<close>

definition parseInt :: "string \<Rightarrow> number" where
  "parseInt s =
     (let t = dropWhile is_space s;
          neg = (case t of [] \<Rightarrow> False | c # _ \<Rightarrow> c = CHR ''-'');
          u = (case t of [] \<Rightarrow> []
               | c # r \<Rightarrow> if c = CHR ''-'' \<or> c = CHR ''+'' then r else t);
          z = takeWhile is_digit u
      in if z = [] then NaN
         else Num ((if neg then - 1 else 1) * digits_value z))"

fun show_nat :: "nat \<Rightarrow> string" where
  "show_nat n =
     (if n < 10 then [char_of (48 + n)]
      else show_nat (n div 10) @ [char_of (48 + n mod 10)])"

text \<open>\<^verbatim>\<open>n.toString()\<close> for an integer or \<open>NaN\<close>.\<close>

fun toString :: "number \<Rightarrow> string" where
  "toString NaN = ''NaN''"
| "toString (Num i) = (if i < 0 then CHR ''-'' # show_nat (nat (- i)) else show_nat (nat i))"

text \<open>
  A property read \<^verbatim>\<open>obj[k]\<close> on a plain object (an object literal, a spread copy
  or parsed JSON). The object is the association list of its own properties in
  enumeration order. A key that is not an own property is looked up on
  \<^verbatim>\<open>Object.prototype\<close>: for its property names the read yields an inherited value
  (a function, or the prototype object for \<^verbatim>\<open>__proto__\<close>), which is truthy, is not
  iterable and has none of the registry's fields. Any other key reads \<open>undefined\<close>.
\<close>

datatype 'a property = Undefined | Own 'a | Inherited

definition object_prototype :: "string list" where
  "object_prototype =
     [''constructor'', ''__proto__'', ''hasOwnProperty'', ''isPrototypeOf'',
      ''propertyIsEnumerable'', ''toLocaleString'', ''toString'', ''valueOf'',
      ''__defineGetter__'', ''__defineSetter__'', ''__lookupGetter__'',
      ''__lookupSetter__'']"

definition get_property :: "(string \<times> 'a) list \<Rightarrow> string \<Rightarrow> 'a property" where
  "get_property obj k =
     (case map_of obj k of
        Some v \<Rightarrow> Own v
      | None \<Rightarrow> if k \<in> set object_prototype then Inherited else Undefined)"

text \<open>
  Object spread \<^verbatim>\<open>{...a, ...b}\<close>: the properties of \<open>a\<close>, then those of \<open>b\<close>, a
  repeated key keeping its first position and taking the later value. (Keys that
  are array indices would be enumerated first; registry keys are words.)
\<close>

definition spread :: "(string \<times> 'a) list \<Rightarrow> (string \<times> 'a) list \<Rightarrow> (string \<times> 'a) list" where
  "spread a b = foldl (\<lambda>acc kv. AList.update (fst kv) (snd kv) acc) [] (a @ b)"

section \<open>Data model (types.ts)\<close>

datatype tier = Top | Second

datatype tier_filter = TierTop | TierSecond | TierAll

record ConferenceInfo =
  name :: string
  shortName :: string
  conf_tier :: tier
  urls :: "(string \<times> string) list"
  dblpKey :: string

text \<open>
  \<^verbatim>\<open>conferences.json\<close>, the registry, is configuration data that is not part of
  the sources; every function below takes it as the parameter \<open>reg\<close>.
\<close>

record ConferencesConfig =
  top_tier :: "(string \<times> ConferenceInfo) list"
  second_tier :: "(string \<times> ConferenceInfo) list"

record SearchOptions =
  keyword :: "string option"
  author :: "string option"
  yearFrom :: "int option"
  yearTo :: "int option"
  conferences :: "string list option"
  opt_tier :: "tier_filter option"
  limit :: "int option"

datatype author_field = Single string | Many "string list"

record DblpHit =
  hit_title :: string
  hit_authors :: "author_field option"
  hit_year :: string
  venue :: string
  hit_url :: "string option"
  hit_doi :: "string option"
  ee :: "string option"

record Paper =
  title :: string
  authors :: "string list"
  year :: number
  conference :: string
  conferenceFull :: string
  tier :: tier
  url :: "string option"
  doi :: "string option"
  conferenceUrl :: "string property"

text \<open>
  The upstream call. A request is the three query parameters set on the URL; the
  service is a function from requests to replies, and the list of requests issued so
  far is threaded through every function that may call \<^verbatim>\<open>fetch\<close>.
\<close>

record request =
  param_q :: string
  param_format :: string
  param_h :: string

datatype body = Unparsable | Parsed "DblpHit list"

datatype reply = NetworkFailure | HttpResponse nat body

datatype error =
    UnknownConference string
  | DblpApiError nat
  | FetchError
  | JsonError
  | TypeError

section \<open>Registry access\<close>

definition DBLP_VENUE_MAPPINGS :: "(string \<times> string list) list" where
  "DBLP_VENUE_MAPPINGS =
     [(''sp'', [''sp'', ''ieee symposium on security and privacy'', ''s&p'', ''oakland'']),
      (''usenix'', [''uss'', ''usenix security'', ''usenix security symposium'']),
      (''ccs'', [''ccs'', ''acm ccs'', ''computer and communications security'']),
      (''ndss'', [''ndss'', ''network and distributed system security'']),
      (''acsac'', [''acsac'', ''annual computer security applications'']),
      (''raid'', [''raid'', ''research in attacks'', ''intrusions and defenses'']),
      (''esorics'', [''esorics'', ''european symposium on research in computer security''])]"

definition getAllConferences :: "ConferencesConfig \<Rightarrow> (string \<times> ConferenceInfo) list" where
  "getAllConferences reg = spread (top_tier reg) (second_tier reg)"

definition getConferencesByTier ::
  "ConferencesConfig \<Rightarrow> tier_filter \<Rightarrow> (string \<times> ConferenceInfo) list" where
  "getConferencesByTier reg t =
     (case t of
        TierTop \<Rightarrow> top_tier reg
      | TierSecond \<Rightarrow> second_tier reg
      | TierAll \<Rightarrow> getAllConferences reg)"

definition getConferenceInfo :: "ConferencesConfig \<Rightarrow> string \<Rightarrow> ConferenceInfo property" where
  "getConferenceInfo reg key = get_property (getAllConferences reg) (toLowerCase key)"

text \<open>
  \<^verbatim>\<open>conf.urls[year.toString()]\<close>. When \<open>conf\<close> is an inherited value it has no
  \<^verbatim>\<open>urls\<close>, and indexing \<open>undefined\<close> throws.
\<close>

definition getConferenceWebsiteUrl ::
  "ConferencesConfig \<Rightarrow> string \<Rightarrow> number \<Rightarrow> error + string property" where
  "getConferenceWebsiteUrl reg key y =
     (case getConferenceInfo reg key of
        Undefined \<Rightarrow> Inr Undefined
      | Own conf \<Rightarrow> Inr (get_property (urls conf) (toString y))
      | Inherited \<Rightarrow> Inl TypeError)"

section \<open>Query builder\<close>

definition truthy_string :: "string option \<Rightarrow> bool" where
  "truthy_string s = (case s of None \<Rightarrow> False | Some v \<Rightarrow> v \<noteq> [])"

definition targetConferences :: "ConferencesConfig \<Rightarrow> SearchOptions \<Rightarrow> string list" where
  "targetConferences reg options =
     (case conferences options of
        Some (c # cs) \<Rightarrow> c # cs
      | _ \<Rightarrow> map fst (getConferencesByTier reg
                (case opt_tier options of None \<Rightarrow> TierAll | Some t \<Rightarrow> t)))"

text \<open>\<^verbatim>\<open>conf?.dblpKey\<close>: \<open>None\<close> is \<open>undefined\<close>.\<close>

definition dblpKey_of :: "ConferencesConfig \<Rightarrow> string \<Rightarrow> string option" where
  "dblpKey_of reg c =
     (case getConferenceInfo reg c of Own conf \<Rightarrow> Some (dblpKey conf) | _ \<Rightarrow> None)"

definition venueQueries :: "ConferencesConfig \<Rightarrow> SearchOptions \<Rightarrow> string list" where
  "venueQueries reg options =
     map (\<lambda>v. case v of Some s \<Rightarrow> s | None \<Rightarrow> [])
       (filter truthy_string (map (dblpKey_of reg) (targetConferences reg options)))"

definition buildDblpQuery :: "ConferencesConfig \<Rightarrow> SearchOptions \<Rightarrow> string" where
  "buildDblpQuery reg options =
     (let parts0 = (case keyword options of
                      Some k \<Rightarrow> if k \<noteq> [] then [k] else []
                    | None \<Rightarrow> []);
          parts1 = parts0 @ (case author options of
                      Some a \<Rightarrow> if a \<noteq> [] then [''author:'' @ a] else []
                    | None \<Rightarrow> []);
          vq = venueQueries reg options;
          parts2 = parts1 @ (if length vq > 0
                      then [join ''|'' (map (\<lambda>v. ''venue:'' @ v @ '':'') vq)]
                      else [])
      in join '' '' parts2)"

section \<open>Venue matcher\<close>

text \<open>
  The loop over \<^verbatim>\<open>Object.entries(allConfs)\<close>. Iterating an inherited value of
  \<^verbatim>\<open>DBLP_VENUE_MAPPINGS[key]\<close> throws a TypeError.
\<close>

fun match_loop ::
  "string \<Rightarrow> (string \<times> ConferenceInfo) list \<Rightarrow> error + (string \<times> ConferenceInfo) option" where
  "match_loop venueLower [] = Inr None"
| "match_loop venueLower ((key, conf) # rest) =
     (if string_includes venueLower (dblpKey conf) then Inr (Some (key, conf))
      else case get_property DBLP_VENUE_MAPPINGS key of
          Inherited \<Rightarrow> Inl TypeError
        | Own mappings \<Rightarrow>
            if list_ex (string_includes venueLower) mappings then Inr (Some (key, conf))
            else if string_includes venueLower key
                    \<or> string_includes venueLower (toLowerCase (shortName conf))
                 then Inr (Some (key, conf))
            else match_loop venueLower rest
        | Undefined \<Rightarrow>
            if string_includes venueLower key
               \<or> string_includes venueLower (toLowerCase (shortName conf))
            then Inr (Some (key, conf))
            else match_loop venueLower rest)"

definition matchConference ::
  "ConferencesConfig \<Rightarrow> string \<Rightarrow> error + (string \<times> ConferenceInfo) option" where
  "matchConference reg v = match_loop (toLowerCase v) (getAllConferences reg)"

section \<open>Search orchestrator\<close>

definition year_skipped :: "SearchOptions \<Rightarrow> number \<Rightarrow> bool" where
  "year_skipped options y =
     ((case yearFrom options of
         None \<Rightarrow> False | Some f \<Rightarrow> f \<noteq> 0 \<and> less_number y (Num f))
      \<or> (case yearTo options of
         None \<Rightarrow> False | Some t \<Rightarrow> t \<noteq> 0 \<and> less_number (Num t) y))"

definition conference_skipped ::
  "SearchOptions \<Rightarrow> (string \<times> ConferenceInfo) option \<Rightarrow> bool" where
  "conference_skipped options matched =
     (case conferences options of
        Some (c # cs) \<Rightarrow>
          (case matched of None \<Rightarrow> False | Some m \<Rightarrow> fst m \<notin> set (c # cs))
      | _ \<Rightarrow> False)"

definition extract_authors :: "author_field option \<Rightarrow> string list" where
  "extract_authors a =
     (case a of None \<Rightarrow> [] | Some (Many as) \<Rightarrow> as | Some (Single t) \<Rightarrow> [t])"

definition or_else :: "string \<Rightarrow> string \<Rightarrow> string" where
  "or_else a b = (if a \<noteq> [] then a else b)"

text \<open>
  The body of the loop over the hits: \<open>Inr None\<close> is \<^verbatim>\<open>continue\<close>,
  \<open>Inr (Some p)\<close> is \<^verbatim>\<open>papers.push(p)\<close>, \<open>Inl e\<close> is a thrown error.
\<close>

definition process_hit ::
  "ConferencesConfig \<Rightarrow> SearchOptions \<Rightarrow> DblpHit \<Rightarrow> error + Paper option" where
  "process_hit reg options hit =
     (let y = parseInt (hit_year hit) in
      if year_skipped options y then Inr None
      else case matchConference reg (venue hit) of
          Inl e \<Rightarrow> Inl e
        | Inr matched \<Rightarrow>
            if conference_skipped options matched then Inr None
            else case (case matched of
                         None \<Rightarrow> Inr Undefined
                       | Some m \<Rightarrow> getConferenceWebsiteUrl reg (fst m) y) of
                Inl e \<Rightarrow> Inl e
              | Inr confWebsiteUrl \<Rightarrow>
                  Inr (Some \<lparr>
                    title = hit_title hit,
                    authors = extract_authors (hit_authors hit),
                    year = y,
                    conference = (case matched of None \<Rightarrow> venue hit
                                  | Some m \<Rightarrow> or_else (shortName (snd m)) (venue hit)),
                    conferenceFull = (case matched of None \<Rightarrow> venue hit
                                  | Some m \<Rightarrow> or_else (name (snd m)) (venue hit)),
                    tier = (case matched of None \<Rightarrow> Second | Some m \<Rightarrow> conf_tier (snd m)),
                    url = (if truthy_string (ee hit) then ee hit else hit_url hit),
                    doi = hit_doi hit,
                    conferenceUrl = confWebsiteUrl \<rparr>))"

fun hits_loop ::
  "ConferencesConfig \<Rightarrow> SearchOptions \<Rightarrow> DblpHit list \<Rightarrow> Paper list \<Rightarrow> error + Paper list" where
  "hits_loop reg options [] papers = Inr papers"
| "hits_loop reg options (hit # hits) papers =
     (case process_hit reg options hit of
        Inl e \<Rightarrow> Inl e
      | Inr None \<Rightarrow> hits_loop reg options hits papers
      | Inr (Some p) \<Rightarrow> hits_loop reg options hits (papers @ [p]))"

definition search_request :: "ConferencesConfig \<Rightarrow> SearchOptions \<Rightarrow> request" where
  "search_request reg options =
     \<lparr> param_q = buildDblpQuery reg options,
       param_format = ''json'',
       param_h = toString (Num (case limit options of
                                  None \<Rightarrow> 50
                                | Some l \<Rightarrow> if l \<noteq> 0 then l else 50)) \<rparr>"

definition searchPapers ::
  "ConferencesConfig \<Rightarrow> (request \<Rightarrow> reply) \<Rightarrow> SearchOptions \<Rightarrow> request list
     \<Rightarrow> (error + Paper list) \<times> request list" where
  "searchPapers reg fetch options issued =
     (let req = search_request reg options;
          issued' = issued @ [req]
      in case fetch req of
           NetworkFailure \<Rightarrow> (Inl FetchError, issued')
         | HttpResponse status b \<Rightarrow>
             if 200 \<le> status \<and> status \<le> 299
             then (case b of
                     Unparsable \<Rightarrow> (Inl JsonError, issued')
                   | Parsed hits \<Rightarrow> (hits_loop reg options hits [], issued'))
             else (Inl (DblpApiError status), issued'))"

definition searchByConference ::
  "ConferencesConfig \<Rightarrow> (request \<Rightarrow> reply) \<Rightarrow> string \<Rightarrow> int \<Rightarrow> request list
     \<Rightarrow> (error + Paper list) \<times> request list" where
  "searchByConference reg fetch conferenceKey y issued =
     (case getConferenceInfo reg conferenceKey of
        Undefined \<Rightarrow> (Inl (UnknownConference conferenceKey), issued)
      | _ \<Rightarrow> searchPapers reg fetch
               \<lparr> keyword = None, author = None, yearFrom = Some y, yearTo = Some y,
                 conferences = Some [conferenceKey], opt_tier = None, limit = Some 200 \<rparr>
               issued)"

section \<open>Available years\<close>

function years_loop :: "int \<Rightarrow> int \<Rightarrow> int list \<Rightarrow> int list" where
  "years_loop currentYear y years =
     (if y \<le> currentYear + 1 then years_loop currentYear (y + 1) (years @ [y]) else years)"
  by pat_completeness auto
termination
  by (relation "measure (\<lambda>(currentYear, y, years). nat (currentYear + 2 - y))") auto

text \<open>\<open>currentYear\<close> is \<^verbatim>\<open>new Date().getFullYear()\<close>, read from the clock.\<close>

definition getAvailableYears :: "int \<Rightarrow> int list" where
  "getAvailableYears currentYear = years_loop currentYear 2020 []"

section \<open>Specification-level definitions\<close>

text \<open>
  The venue matcher's three rules for one candidate conference, as a predicate:
  the venue identifier, an alias of the auxiliary list, or the key or the short name
  occurs in the lower-cased venue text.
\<close>

definition entry_matches :: "string \<Rightarrow> string \<times> ConferenceInfo \<Rightarrow> bool" where
  "entry_matches venueLower kv =
     (string_includes venueLower (dblpKey (snd kv))
      \<or> list_ex (string_includes venueLower)
           (case get_property DBLP_VENUE_MAPPINGS (fst kv) of Own ms \<Rightarrow> ms | _ \<Rightarrow> [])
      \<or> string_includes venueLower (fst kv)
      \<or> string_includes venueLower (toLowerCase (shortName (snd kv))))"

text \<open>
  The query string as the specification words it. A keyword or an author is present
  when a non-empty string is supplied. The effective conference set is the explicit
  list if non-empty, else the keys of \<open>byTier(tier)\<close>; each key is looked up in the
  registry (case-insensitively), keys that do not resolve are dropped, and the
  identifiers that remain form one disjunction, left out when none remains.
\<close>

definition spec_effective_conferences :: "ConferencesConfig \<Rightarrow> SearchOptions \<Rightarrow> string list" where
  "spec_effective_conferences reg options =
     (if conferences options = None \<or> conferences options = Some []
      then map fst (getConferencesByTier reg
             (case opt_tier options of None \<Rightarrow> TierAll | Some t \<Rightarrow> t))
      else case conferences options of Some cs \<Rightarrow> cs | None \<Rightarrow> [])"

definition spec_venue_identifiers :: "ConferencesConfig \<Rightarrow> SearchOptions \<Rightarrow> string list" where
  "spec_venue_identifiers reg options =
     List.map_filter
       (\<lambda>k. map_option dblpKey (map_of (getAllConferences reg) (toLowerCase k)))
       (spec_effective_conferences reg options)"

definition spec_keyword_clause :: "SearchOptions \<Rightarrow> string list" where
  "spec_keyword_clause options =
     (case keyword options of None \<Rightarrow> [] | Some k \<Rightarrow> if k = [] then [] else [k])"

definition spec_author_clause :: "SearchOptions \<Rightarrow> string list" where
  "spec_author_clause options =
     (case author options of None \<Rightarrow> [] | Some a \<Rightarrow> if a = [] then [] else [''author:'' @ a])"

definition spec_venue_clause :: "string list \<Rightarrow> string list" where
  "spec_venue_clause ids =
     (if ids = [] then [] else [join ''|'' (map (\<lambda>v. ''venue:'' @ v @ '':'') ids)])"

definition spec_query :: "ConferencesConfig \<Rightarrow> SearchOptions \<Rightarrow> string" where
  "spec_query reg options =
     join '' '' (spec_keyword_clause options @ spec_author_clause options
                 @ spec_venue_clause (spec_venue_identifiers reg options))"

text \<open>
  The hits a successful upstream reply decodes to (none when the call fails): the
  list the loop of \<open>searchPapers\<close> runs over.
\<close>

definition upstream_hits :: "(request \<Rightarrow> reply) \<Rightarrow> request \<Rightarrow> DblpHit list" where
  "upstream_hits fetch req =
     (case fetch req of
        HttpResponse status (Parsed hits) \<Rightarrow>
          if 200 \<le> status \<and> status \<le> 299 then hits else []
      | _ \<Rightarrow> [])"

section \<open>An example registry\<close>

text \<open>
  A registry for evaluating the functions on concrete inputs. Keys, tiers, names and
  short names are those of README.md and of the tool schema in index.ts, in that
  order; the venue identifiers and the URLs are examples.
\<close>

definition example_sp :: ConferenceInfo where
  "example_sp = \<lparr> name = ''IEEE Symposium on Security and Privacy'', shortName = ''S&P'',
     conf_tier = Top, urls = [(''2024'', ''https://sp2024.ieee-security.org/'')],
     dblpKey = ''sp'' \<rparr>"

definition example_usenix :: ConferenceInfo where
  "example_usenix = \<lparr> name = ''USENIX Security Symposium'', shortName = ''USENIX Security'',
     conf_tier = Top, urls = [], dblpKey = ''uss'' \<rparr>"

definition example_ccs :: ConferenceInfo where
  "example_ccs = \<lparr> name = ''ACM Conference on Computer and Communications Security'',
     shortName = ''CCS'', conf_tier = Top, urls = [], dblpKey = ''ccs'' \<rparr>"

definition example_ndss :: ConferenceInfo where
  "example_ndss = \<lparr> name = ''Network and Distributed System Security Symposium'',
     shortName = ''NDSS'', conf_tier = Top, urls = [], dblpKey = ''ndss'' \<rparr>"

definition example_acsac :: ConferenceInfo where
  "example_acsac = \<lparr> name = ''Annual Computer Security Applications Conference'',
     shortName = ''ACSAC'', conf_tier = Second, urls = [], dblpKey = ''acsac'' \<rparr>"

definition example_raid :: ConferenceInfo where
  "example_raid = \<lparr> name = ''Research in Attacks, Intrusions and Defenses'',
     shortName = ''RAID'', conf_tier = Second, urls = [], dblpKey = ''raid'' \<rparr>"

definition example_esorics :: ConferenceInfo where
  "example_esorics = \<lparr> name = ''European Symposium on Research in Computer Security'',
     shortName = ''ESORICS'', conf_tier = Second, urls = [], dblpKey = ''esorics'' \<rparr>"

definition example_registry :: ConferencesConfig where
  "example_registry =
     \<lparr> top_tier = [(''sp'', example_sp), (''usenix'', example_usenix),
                   (''ccs'', example_ccs), (''ndss'', example_ndss)],
       second_tier = [(''acsac'', example_acsac), (''raid'', example_raid),
                      (''esorics'', example_esorics)] \<rparr>"

text \<open>An upstream service that answers every request with status 200 and the given hits.\<close>

definition example_fetch :: "DblpHit list \<Rightarrow> request \<Rightarrow> reply" where
  "example_fetch hits req = HttpResponse 200 (Parsed hits)"

definition example_hit :: "string \<Rightarrow> string \<Rightarrow> DblpHit" where
  "example_hit y v =
     \<lparr> hit_title = ''A Paper'', hit_authors = Some (Single ''A. Author''), hit_year = y,
       venue = v, hit_url = None, hit_doi = None, ee = None \<rparr>"

definition example_options :: "string list option \<Rightarrow> int option \<Rightarrow> int option \<Rightarrow> SearchOptions" where
  "example_options cs f t =
     \<lparr> keyword = Some ''fuzzing'', author = None, yearFrom = f, yearTo = t,
       conferences = cs, opt_tier = None, limit = None \<rparr>"

declare show_nat.simps [simp del]
declare years_loop.simps [simp del]

section \<open>Available years: the loop is the integer interval\<close>

lemma years_loop_upto: "years_loop currentYear y years = years @ [y..currentYear + 1]"
proof (induction currentYear y years rule: years_loop.induct)
  case (1 currentYear y years)
  show ?case
  proof (cases "y \<le> currentYear + 1")
    case True
    then have "years_loop currentYear y years = years_loop currentYear (y + 1) (years @ [y])"
      by (subst years_loop.simps) simp
    also have "\<dots> = (years @ [y]) @ [y + 1..currentYear + 1]"
      using "1.IH" [OF True] .
    also have "\<dots> = years @ [y..currentYear + 1]"
      using True by (simp add: upto_rec1 [of y])
    finally show ?thesis .
  next
    case False
    then show ?thesis
      by (subst years_loop.simps) simp
  qed
qed

text \<open>
  C8. \<open>getAvailableYears\<close> returns exactly the ascending integers from 2020 up to the
  year after the current one; when the current year is 2025 that is 2020, ..., 2026.
\<close>

theorem getAvailableYears_range:
  "getAvailableYears currentYear = [2020..currentYear + 1]
   \<and> getAvailableYears 2025 = [2020, 2021, 2022, 2023, 2024, 2025, 2026]"
proof -
  have range: "getAvailableYears c = [2020..c + 1]" for c
    by (simp add: getAvailableYears_def years_loop_upto)
  have "[2020..(2025::int) + 1] = [2020, 2021, 2022, 2023, 2024, 2025, 2026]"
    by (simp add: upto_rec1)
  with range show ?thesis by simp
qed

section \<open>Strings\<close>

lemma toLowerCase_char_idem: "toLowerCase_char (toLowerCase_char c) = toLowerCase_char c"
  by (simp add: toLowerCase_char_def)

lemma toLowerCase_char_upper: "toLowerCase_char (toUpperCase_char c) = toLowerCase_char c"
  by (auto simp add: toLowerCase_char_def toUpperCase_char_def)

lemma toLowerCase_toUpperCase: "toLowerCase (toUpperCase s) = toLowerCase s"
  by (simp add: toLowerCase_def toUpperCase_def toLowerCase_char_upper)

lemma toLowerCase_idem: "toLowerCase (toLowerCase s) = toLowerCase s"
  by (simp add: toLowerCase_def toLowerCase_char_idem)

lemma string_includes_sublist: "string_includes s t \<longleftrightarrow> sublist t s"
  by (induction s) (auto simp add: sublist_Cons_right)

section \<open>The result limit\<close>

lemma year_skipped_limit: "year_skipped (options\<lparr>limit := l\<rparr>) y = year_skipped options y"
  by (simp add: year_skipped_def)

lemma conference_skipped_limit:
  "conference_skipped (options\<lparr>limit := l\<rparr>) m = conference_skipped options m"
  by (simp add: conference_skipped_def)

lemma process_hit_limit:
  "process_hit reg (options\<lparr>limit := l\<rparr>) hit = process_hit reg options hit"
  unfolding process_hit_def year_skipped_limit conference_skipped_limit by (rule refl)

lemma hits_loop_limit:
  "hits_loop reg (options\<lparr>limit := l\<rparr>) hits papers = hits_loop reg options hits papers"
  by (induction hits arbitrary: papers)
     (simp_all add: process_hit_limit split: sum.splits option.splits)

lemma targetConferences_limit:
  "targetConferences reg (options\<lparr>limit := l\<rparr>) = targetConferences reg options"
  by (simp add: targetConferences_def split: option.splits list.splits)

lemma venueQueries_limit:
  "venueQueries reg (options\<lparr>limit := l\<rparr>) = venueQueries reg options"
  by (simp add: venueQueries_def targetConferences_limit)

lemma buildDblpQuery_limit:
  "buildDblpQuery reg (options\<lparr>limit := l\<rparr>) = buildDblpQuery reg options"
  by (simp add: buildDblpQuery_def venueQueries_limit)

lemma show_nat_50: "show_nat 50 = ''50''"
  by code_simp

text \<open>Every call of \<open>searchPapers\<close> issues exactly one upstream request.\<close>

lemma searchPapers_issued:
  "snd (searchPapers reg fetch options issued) = issued @ [search_request reg options]"
  by (simp add: searchPapers_def Let_def split: reply.splits body.splits)

text \<open>
  C10. When the limit is absent or 0, the one upstream request carries
  \<open>h = 50\<close>, and the whole call behaves as with the limit 50; a limit of 0 behaves
  as an omitted limit.
\<close>

theorem searchPapers_falsy_limit:
  assumes "limit options = None \<or> limit options = Some 0"
  shows "snd (searchPapers reg fetch options issued)
           = issued @ [\<lparr> param_q = buildDblpQuery reg options, param_format = ''json'',
                          param_h = ''50'' \<rparr>]
         \<and> searchPapers reg fetch options issued
           = searchPapers reg fetch (options\<lparr>limit := Some 50\<rparr>) issued
         \<and> searchPapers reg fetch (options\<lparr>limit := Some 0\<rparr>) issued
           = searchPapers reg fetch (options\<lparr>limit := None\<rparr>) issued"
proof -
  have req: "search_request reg options
      = \<lparr> param_q = buildDblpQuery reg options, param_format = ''json'', param_h = ''50'' \<rparr>"
    using assms by (auto simp add: search_request_def show_nat_50)
  have req50: "search_request reg (options\<lparr>limit := Some 50\<rparr>) = search_request reg options"
    using assms by (auto simp add: search_request_def buildDblpQuery_limit)
  have req0: "search_request reg (options\<lparr>limit := Some 0\<rparr>)
      = search_request reg (options\<lparr>limit := None\<rparr>)"
    by (simp add: search_request_def buildDblpQuery_limit)
  have two: "searchPapers reg fetch options issued
      = searchPapers reg fetch (options\<lparr>limit := Some 50\<rparr>) issued"
    unfolding searchPapers_def req50 hits_loop_limit by (rule refl)
  have three: "searchPapers reg fetch (options\<lparr>limit := Some 0\<rparr>) issued
      = searchPapers reg fetch (options\<lparr>limit := None\<rparr>) issued"
    unfolding searchPapers_def req0 hits_loop_limit by (rule refl)
  from searchPapers_issued [of reg fetch options issued] req two three show ?thesis by simp
qed

theorem searchPapers_falsy_limit_witness:
  "limit ((example_options (Some [''sp'']) None None)\<lparr>limit := Some 0\<rparr>) = Some 0
   \<and> snd (searchPapers example_registry (example_fetch [])
            ((example_options (Some [''sp'']) None None)\<lparr>limit := Some 0\<rparr>) [])
       = [\<lparr> param_q = ''fuzzing venue:sp:'', param_format = ''json'', param_h = ''50'' \<rparr>]"
proof -
  let ?o = "(example_options (Some [''sp'']) None None)\<lparr>limit := Some 0\<rparr>"
  have h: "limit ?o = None \<or> limit ?o = Some 0" by simp
  have q: "buildDblpQuery example_registry ?o = ''fuzzing venue:sp:''" by code_simp
  from searchPapers_falsy_limit
         [OF h, of example_registry "example_fetch []" "[]", THEN conjunct1] q
  show ?thesis by simp
qed

section \<open>The query builder against its specification\<close>

lemma dblpKey_of_map_of:
  "dblpKey_of reg c = map_option dblpKey (map_of (getAllConferences reg) (toLowerCase c))"
  by (simp add: dblpKey_of_def getConferenceInfo_def get_property_def split: option.splits)

lemma targetConferences_spec:
  "targetConferences reg options = spec_effective_conferences reg options"
  by (simp add: targetConferences_def spec_effective_conferences_def
           split: option.splits list.splits)

lemma filter_truthy_map_filter:
  assumes "\<And>x s. x \<in> set xs \<Longrightarrow> f x = Some s \<Longrightarrow> s \<noteq> []"
  shows "map (\<lambda>v. case v of Some s \<Rightarrow> s | None \<Rightarrow> []) (filter truthy_string (map f xs))
         = List.map_filter f xs"
  using assms
proof (induction xs)
  case Nil
  then show ?case by (simp add: map_filter_simps)
next
  case (Cons x xs)
  then show ?case
    by (cases "f x") (auto simp add: map_filter_simps truthy_string_def)
qed

lemma venueQueries_spec:
  assumes "list_all (\<lambda>kv. dblpKey (snd kv) \<noteq> []) (getAllConferences reg)"
  shows "venueQueries reg options = spec_venue_identifiers reg options"
proof -
  have ne: "s \<noteq> []" if "dblpKey_of reg x = Some s" for x s
  proof -
    from that obtain conf where
      m: "map_of (getAllConferences reg) (toLowerCase x) = Some conf" and s: "s = dblpKey conf"
      by (auto simp add: dblpKey_of_map_of)
    from m have "(toLowerCase x, conf) \<in> set (getAllConferences reg)"
      by (rule map_of_SomeD)
    with assms s show ?thesis
      by (auto simp add: list_all_iff)
  qed
  have "venueQueries reg options
      = List.map_filter (dblpKey_of reg) (targetConferences reg options)"
    unfolding venueQueries_def by (rule filter_truthy_map_filter) (rule ne)
  also have "dblpKey_of reg
      = (\<lambda>k. map_option dblpKey (map_of (getAllConferences reg) (toLowerCase k)))"
    by (rule ext) (rule dblpKey_of_map_of)
  finally show ?thesis
    by (simp add: spec_venue_identifiers_def targetConferences_spec)
qed

lemma buildDblpQuery_parts:
  "buildDblpQuery reg options
     = join '' '' (spec_keyword_clause options @ spec_author_clause options
                   @ spec_venue_clause (venueQueries reg options))"
  by (simp add: buildDblpQuery_def spec_keyword_clause_def spec_author_clause_def
        spec_venue_clause_def Let_def split: option.splits)

text \<open>
  C4. On a registry whose entries all have a non-empty venue identifier, the query
  built by \<open>buildDblpQuery\<close> is the specified one: the keyword, the author clause and
  the venue disjunction over the effective conference set, joined by spaces, the
  venue clause left out when no identifier survives. The builder returns a string on
  every request; it has no error result.
\<close>

theorem buildDblpQuery_spec:
  assumes "list_all (\<lambda>kv. dblpKey (snd kv) \<noteq> []) (getAllConferences reg)"
  shows "buildDblpQuery reg options = spec_query reg options"
  by (simp add: buildDblpQuery_parts spec_query_def venueQueries_spec [OF assms])

theorem buildDblpQuery_spec_witness:
  "list_all (\<lambda>kv. dblpKey (snd kv) \<noteq> []) (getAllConferences example_registry)
   \<and> buildDblpQuery example_registry
       ((example_options (Some [''sp'', ''nope'', ''CCS'']) None None)\<lparr>author := Some ''Kim''\<rparr>)
     = spec_query example_registry
       ((example_options (Some [''sp'', ''nope'', ''CCS'']) None None)\<lparr>author := Some ''Kim''\<rparr>)
   \<and> spec_query example_registry
       ((example_options (Some [''sp'', ''nope'', ''CCS'']) None None)\<lparr>author := Some ''Kim''\<rparr>)
     = ''fuzzing author:Kim venue:sp:|venue:ccs:''
   \<and> spec_query example_registry
       ((example_options (Some [''nope'']) None None)\<lparr>keyword := None\<rparr>) = []
   \<and> spec_query example_registry
       ((example_options None None None)\<lparr>keyword := None, opt_tier := Some TierSecond\<rparr>)
     = ''venue:acsac:|venue:raid:|venue:esorics:''"
proof -
  have h: "list_all (\<lambda>kv. dblpKey (snd kv) \<noteq> []) (getAllConferences example_registry)"
    by code_simp
  have a: "spec_query example_registry
       ((example_options (Some [''sp'', ''nope'', ''CCS'']) None None)\<lparr>author := Some ''Kim''\<rparr>)
     = ''fuzzing author:Kim venue:sp:|venue:ccs:''"
    by code_simp
  have b: "spec_query example_registry
       ((example_options (Some [''nope'']) None None)\<lparr>keyword := None\<rparr>) = []"
    by code_simp
  have c: "spec_query example_registry
       ((example_options None None None)\<lparr>keyword := None, opt_tier := Some TierSecond\<rparr>)
     = ''venue:acsac:|venue:raid:|venue:esorics:''"
    by code_simp
  from h a b c buildDblpQuery_spec [OF h] show ?thesis
    by blast
qed

section \<open>The venue matcher\<close>

text \<open>A match is an entry of the registry.\<close>

lemma match_loop_mem: "match_loop vl xs = Inr (Some m) \<Longrightarrow> m \<in> set xs"
  by (induction vl xs rule: match_loop.induct)
     (auto split: if_splits property.splits)

lemma match_loop_step:
  assumes "\<not> entry_matches vl (k, c)" "k \<notin> set object_prototype"
  shows "match_loop vl ((k, c) # rest) = match_loop vl rest"
  using assms
  by (auto simp add: entry_matches_def get_property_def split: option.splits property.splits)

lemma match_loop_hit:
  assumes "string_includes vl (dblpKey c)"
  shows "match_loop vl ((k, c) # rest) = Inr (Some (k, c))"
  using assms by simp

lemma match_loop_first:
  assumes "list_all (\<lambda>kv. \<not> entry_matches vl kv \<and> fst kv \<notin> set object_prototype) pre"
      and "string_includes vl (dblpKey c)"
  shows "match_loop vl (pre @ (k, c) # post) = Inr (Some (k, c))"
  using assms
proof (induction pre)
  case Nil
  then show ?case by simp
next
  case (Cons kv pre)
  obtain k' c' where kv: "kv = (k', c')" by (cases kv)
  from Cons.prems have "\<not> entry_matches vl (k', c')" "k' \<notin> set object_prototype"
    by (simp_all add: kv)
  then have "match_loop vl ((k', c') # (pre @ (k, c) # post)) = match_loop vl (pre @ (k, c) # post)"
    by (rule match_loop_step)
  with Cons show ?case by (simp add: kv)
qed

lemma match_loop_matches:
  assumes "entry_matches vl (k, c)" "k \<notin> set object_prototype"
  shows "match_loop vl ((k, c) # rest) = Inr (Some (k, c))"
  using assms
  by (auto simp add: entry_matches_def get_property_def split: option.splits property.splits)

lemma match_loop_find:
  assumes "list_all (\<lambda>kv. fst kv \<notin> set object_prototype) xs"
  shows "match_loop vl xs = Inr (find (entry_matches vl) xs)"
  using assms
proof (induction xs)
  case Nil
  then show ?case by simp
next
  case (Cons kv xs)
  obtain k c where kv: "kv = (k, c)" by (cases kv)
  from Cons.prems have k: "k \<notin> set object_prototype" by (simp add: kv)
  show ?case
  proof (cases "entry_matches vl (k, c)")
    case True
    with k show ?thesis by (simp add: kv match_loop_matches del: match_loop.simps)
  next
    case False
    with k Cons show ?thesis by (simp add: kv match_loop_step del: match_loop.simps)
  qed
qed

text \<open>
  Whatever the registry holds: the text made of the first entry's key, a space and
  any lower-case string \<open>d\<close>, for instance the venue identifier of a later entry,
  is matched to the first entry.
\<close>

lemma string_includes_prefix: "prefix t s \<Longrightarrow> string_includes s t"
  by (cases s) auto

lemma matchConference_first_entry:
  assumes "getAllConferences reg = (k1, c1) # rest"
      and "toLowerCase k1 = k1" and "toLowerCase d = d"
      and "k1 \<notin> set object_prototype"
  shows "matchConference reg (k1 @ '' '' @ d) = Inr (Some (k1, c1))"
proof -
  have "toLowerCase (k1 @ '' '' @ d) = k1 @ '' '' @ d"
    using assms(2,3) by (simp add: toLowerCase_def toLowerCase_char_def)
  moreover have "string_includes (k1 @ '' '' @ d) k1"
    by (rule string_includes_prefix) simp
  then have "entry_matches (k1 @ '' '' @ d) (k1, c1)"
    by (simp add: entry_matches_def)
  ultimately show ?thesis
    using assms(1,4) by (simp add: matchConference_def match_loop_matches del: match_loop.simps)
qed

text \<open>
  C1, as the code has it. The matcher returns the first conference, in registry order,
  that matches under any of its three rules. So a conference whose venue identifier
  occurs in the lower-cased venue text is returned when no conference before it in
  registry order matches the text by identifier, alias, key or short name. (The
  registry keys are assumed not to be property names of \<^verbatim>\<open>Object.prototype\<close>.)
\<close>

theorem matchConference_first_match:
  assumes "getAllConferences reg = pre @ (k, c) # post"
      and "list_all (\<lambda>kv. \<not> entry_matches (toLowerCase v) kv
                          \<and> fst kv \<notin> set object_prototype) pre"
      and "string_includes (toLowerCase v) (dblpKey c)"
  shows "matchConference reg v = Inr (Some (k, c))"
  using assms by (simp add: matchConference_def match_loop_first)

theorem matchConference_first_match_witness:
  "getAllConferences example_registry
     = [(''sp'', example_sp), (''usenix'', example_usenix), (''ccs'', example_ccs)]
       @ (''ndss'', example_ndss)
       # [(''acsac'', example_acsac), (''raid'', example_raid), (''esorics'', example_esorics)]
   \<and> list_all (\<lambda>kv. \<not> entry_matches (toLowerCase ''Proc. NDSS 2024'') kv
                          \<and> fst kv \<notin> set object_prototype)
        [(''sp'', example_sp), (''usenix'', example_usenix), (''ccs'', example_ccs)]
   \<and> string_includes (toLowerCase ''Proc. NDSS 2024'') (dblpKey example_ndss)
   \<and> matchConference example_registry ''Proc. NDSS 2024'' = Inr (Some (''ndss'', example_ndss))"
proof -
  have a: "getAllConferences example_registry
     = [(''sp'', example_sp), (''usenix'', example_usenix), (''ccs'', example_ccs)]
       @ (''ndss'', example_ndss)
       # [(''acsac'', example_acsac), (''raid'', example_raid), (''esorics'', example_esorics)]"
    by code_simp
  have b: "list_all (\<lambda>kv. \<not> entry_matches (toLowerCase ''Proc. NDSS 2024'') kv
                          \<and> fst kv \<notin> set object_prototype)
        [(''sp'', example_sp), (''usenix'', example_usenix), (''ccs'', example_ccs)]"
    by code_simp
  have c: "string_includes (toLowerCase ''Proc. NDSS 2024'') (dblpKey example_ndss)"
    by code_simp
  from a b c matchConference_first_match [OF a b c] show ?thesis by blast
qed

text \<open>
  C1 as stated fails. The venue text below contains the venue identifier of NDSS and
  the registry key of USENIX Security, which comes earlier in the registry; it does
  not contain the venue identifier of USENIX Security. The matcher returns USENIX
  Security.
\<close>

theorem matchConference_priority_counterexample:
  "(''ndss'', example_ndss) \<in> set (getAllConferences example_registry)
   \<and> string_includes (toLowerCase ''USENIX Workshop at NDSS'') (toLowerCase (dblpKey example_ndss))
   \<and> \<not> string_includes (toLowerCase ''USENIX Workshop at NDSS'') (toLowerCase (dblpKey example_usenix))
   \<and> string_includes (toLowerCase ''USENIX Workshop at NDSS'') ''usenix''
   \<and> matchConference example_registry ''USENIX Workshop at NDSS''
       = Inr (Some (''usenix'', example_usenix))
   \<and> matchConference example_registry ''USENIX Workshop at NDSS''
       \<noteq> Inr (Some (''ndss'', example_ndss))"
  by code_simp

section \<open>The search orchestrator\<close>

text \<open>
  The loop over the hits keeps the upstream order: each hit is skipped or appends one
  paper, and a thrown error aborts the loop.
\<close>

lemma hits_loop_append:
  "hits_loop reg options (xs @ ys) acc
     = (case hits_loop reg options xs acc of
          Inl e \<Rightarrow> Inl e
        | Inr acc' \<Rightarrow> hits_loop reg options ys acc')"
  by (induction xs arbitrary: acc) (simp_all split: sum.splits option.splits)

lemma hits_loop_prefix:
  "hits_loop reg options hits acc = Inr ps \<Longrightarrow> \<exists>qs. ps = acc @ qs"
proof (induction hits arbitrary: acc)
  case Nil
  then show ?case by simp
next
  case (Cons h hits)
  then show ?case
    by (fastforce split: sum.splits option.splits)
qed

lemma hits_loop_papers:
  "hits_loop reg options hits acc = Inr ps \<Longrightarrow> p \<in> set ps \<Longrightarrow>
     p \<in> set acc \<or> (\<exists>h \<in> set hits. process_hit reg options h = Inr (Some p))"
proof (induction hits arbitrary: acc)
  case Nil
  then show ?case by simp
next
  case (Cons h hits)
  show ?case
  proof (cases "process_hit reg options h")
    case (Inl e)
    with Cons.prems show ?thesis by simp
  next
    case (Inr r)
    show ?thesis
    proof (cases r)
      case None
      with Inr Cons.prems have "hits_loop reg options hits acc = Inr ps" by simp
      from Cons.IH [OF this Cons.prems(2)] show ?thesis by auto
    next
      case (Some q)
      with Inr Cons.prems have "hits_loop reg options hits (acc @ [q]) = Inr ps" by simp
      from Cons.IH [OF this Cons.prems(2)] Inr Some show ?thesis by auto
    qed
  qed
qed

lemma hits_loop_skip:
  assumes "process_hit reg options hit = Inr None"
  shows "hits_loop reg options (before @ hit # after) acc
           = hits_loop reg options (before @ after) acc"
  using assms by (simp add: hits_loop_append split: sum.splits)

lemma hits_loop_keeps:
  assumes "process_hit reg options hit = Inr (Some p)"
      and "hits_loop reg options (before @ hit # after) acc = Inr ps"
  shows "p \<in> set ps"
proof -
  from assms(2) obtain acc' where
    a: "hits_loop reg options before acc = Inr acc'"
    and b: "hits_loop reg options (hit # after) acc' = Inr ps"
    by (auto simp add: hits_loop_append split: sum.splits)
  from b assms(1) have "hits_loop reg options after (acc' @ [p]) = Inr ps" by simp
  from hits_loop_prefix [OF this] show ?thesis by auto
qed

lemma searchPapers_ok:
  assumes "fetch (search_request reg options) = HttpResponse st (Parsed hits)"
      and "200 \<le> st" "st \<le> 299"
  shows "fst (searchPapers reg fetch options issued) = hits_loop reg options hits []"
  using assms by (simp add: searchPapers_def)

text \<open>The loop body on one hit.\<close>

lemma conference_skipped_iff:
  "conference_skipped options matched
     \<longleftrightarrow> (\<exists>cs k c. conferences options = Some cs \<and> cs \<noteq> [] \<and> matched = Some (k, c)
                  \<and> k \<notin> set cs)"
  by (auto simp add: conference_skipped_def split: option.splits list.splits)

lemma process_hit_unmatched:
  assumes "matchConference reg (venue hit) = Inr None"
  shows "process_hit reg options hit
     = (if year_skipped options (parseInt (hit_year hit)) then Inr None
        else Inr (Some \<lparr>
          title = hit_title hit,
          authors = extract_authors (hit_authors hit),
          year = parseInt (hit_year hit),
          conference = venue hit,
          conferenceFull = venue hit,
          tier = Second,
          url = (if truthy_string (ee hit) then ee hit else hit_url hit),
          doi = hit_doi hit,
          conferenceUrl = Undefined \<rparr>))"
  using assms by (simp add: process_hit_def Let_def conference_skipped_iff)

lemma process_hit_excluded:
  assumes "conferences options = Some cs" "cs \<noteq> []"
      and "matchConference reg (venue hit) = Inr (Some (k, c))" "k \<notin> set cs"
  shows "process_hit reg options hit = Inr None"
  using assms by (simp add: process_hit_def Let_def conference_skipped_iff)

lemma process_hit_Some:
  assumes "process_hit reg options hit = Inr (Some p)"
  shows "\<not> year_skipped options (parseInt (hit_year hit))
    \<and> year p = parseInt (hit_year hit)
    \<and> (\<exists>matched. matchConference reg (venue hit) = Inr matched
         \<and> \<not> conference_skipped options matched
         \<and> conference p = (case matched of None \<Rightarrow> venue hit
                                  | Some m \<Rightarrow> or_else (shortName (snd m)) (venue hit))
         \<and> conferenceFull p = (case matched of None \<Rightarrow> venue hit
                                  | Some m \<Rightarrow> or_else (name (snd m)) (venue hit))
         \<and> tier p = (case matched of None \<Rightarrow> Second | Some m \<Rightarrow> conf_tier (snd m)))"
  using assms
  by (auto simp add: process_hit_def Let_def split: if_splits sum.splits)

text \<open>
  When the loop fails, one of the hits threw that error; when no hit throws, the loop
  returns a list. On a registry whose keys are lower-case and are no property names of
  \<^verbatim>\<open>Object.prototype\<close>, the loop body never throws.
\<close>

lemma hits_loop_thrown:
  "hits_loop reg options hits acc = Inl e \<Longrightarrow>
     \<exists>h \<in> set hits. process_hit reg options h = Inl e"
proof (induction hits arbitrary: acc)
  case Nil
  then show ?case by simp
next
  case (Cons h hits)
  then show ?case
    by (cases "process_hit reg options h") (auto split: option.splits)
qed

lemma hits_loop_total:
  "list_all (\<lambda>h. \<exists>r. process_hit reg options h = Inr r) hits \<Longrightarrow>
     \<exists>ps. hits_loop reg options hits acc = Inr ps"
proof (induction hits arbitrary: acc)
  case Nil
  then show ?case by simp
next
  case (Cons h hits)
  from Cons.prems obtain r where r: "process_hit reg options h = Inr r" by auto
  from Cons.prems have rest: "list_all (\<lambda>h. \<exists>r. process_hit reg options h = Inr r) hits"
    by simp
  show ?case
  proof (cases r)
    case None
    with r Cons.IH [OF rest, of acc] show ?thesis by simp
  next
    case (Some p)
    with r Cons.IH [OF rest, of "acc @ [p]"] show ?thesis by simp
  qed
qed

lemma matched_key_resolves:
  assumes "list_all (\<lambda>kv. toLowerCase (fst kv) = fst kv) (getAllConferences reg)"
      and "matchConference reg v = Inr (Some (k, c))"
  shows "map_of (getAllConferences reg) (toLowerCase k) \<noteq> None"
proof -
  from assms(2) have mem: "(k, c) \<in> set (getAllConferences reg)"
    unfolding matchConference_def by (rule match_loop_mem)
  with assms(1) have "toLowerCase k = k"
    by (auto simp add: list_all_iff)
  moreover from mem have "map_of (getAllConferences reg) k \<noteq> None"
    by (simp add: map_of_eq_None_iff image_iff) force
  ultimately show ?thesis by simp
qed

lemma process_hit_total:
  assumes "list_all (\<lambda>kv. fst kv \<notin> set object_prototype \<and> toLowerCase (fst kv) = fst kv)
             (getAllConferences reg)"
  shows "\<exists>r. process_hit reg options hit = Inr r"
proof -
  from assms have np: "list_all (\<lambda>kv. fst kv \<notin> set object_prototype) (getAllConferences reg)"
    by (simp add: list_all_iff)
  from assms have lc: "list_all (\<lambda>kv. toLowerCase (fst kv) = fst kv) (getAllConferences reg)"
    by (simp add: list_all_iff)
  obtain matched where m: "matchConference reg (venue hit) = Inr matched"
    by (simp add: matchConference_def match_loop_find [OF np])
  have u: "\<exists>w. getConferenceWebsiteUrl reg (fst x) y = Inr w" if "matched = Some x" for x y
  proof -
    from that m have "matchConference reg (venue hit) = Inr (Some (fst x, snd x))" by simp
    from matched_key_resolves [OF lc this]
    obtain conf where "map_of (getAllConferences reg) (toLowerCase (fst x)) = Some conf"
      by auto
    then show ?thesis
      by (simp add: getConferenceWebsiteUrl_def getConferenceInfo_def get_property_def)
  qed
  show ?thesis
  proof (cases matched)
    case None
    with m show ?thesis by (simp add: process_hit_def Let_def)
  next
    case (Some x)
    from u [OF Some, of "parseInt (hit_year hit)"] obtain w where
      "getConferenceWebsiteUrl reg (fst x) (parseInt (hit_year hit)) = Inr w" by blast
    with m Some show ?thesis by (simp add: process_hit_def Let_def)
  qed
qed

text \<open>
  C3. A call of \<open>searchPapers\<close> with a non-empty explicit conference list, whose
  upstream reply decodes to the hits \<open>before @ hit # after\<close>. If the matcher maps
  \<open>hit\<close> to a conference whose key is not in the list, the hit is skipped and the call
  returns what it returns when the reply holds \<open>before @ after\<close> only. If the matcher
  finds no match for \<open>hit\<close>, the allow-list check does not apply to it (the loop body
  does on it what it does with no list at all), and a hit that reached the matcher,
  that is one past the year filter, yields a paper that is in the list the call
  returns; the call fails only if another hit throws, which no hit does on a registry
  with lower-case keys that are no inherited property names.
\<close>

theorem allow_list_filter:
  assumes cs: "conferences options = Some cs" "cs \<noteq> []"
      and fetched: "fetch (search_request reg options)
                      = HttpResponse st (Parsed (before @ hit # after))"
      and without: "fetch' (search_request reg options)
                      = HttpResponse st (Parsed (before @ after))"
      and ok: "200 \<le> st" "st \<le> 299"
  shows "(matchConference reg (venue hit) = Inr (Some (k, c)) \<and> k \<notin> set cs \<longrightarrow>
            process_hit reg options hit = Inr None
            \<and> fst (searchPapers reg fetch options issued)
                = fst (searchPapers reg fetch' options issued))
       \<and> (matchConference reg (venue hit) = Inr None \<longrightarrow>
            \<not> conference_skipped options None
            \<and> process_hit reg options hit
                = process_hit reg (options\<lparr>conferences := None\<rparr>) hit
            \<and> (\<not> year_skipped options (parseInt (hit_year hit)) \<longrightarrow>
                 (\<exists>p. process_hit reg options hit = Inr (Some p)
                    \<and> (\<forall>ps. fst (searchPapers reg fetch options issued) = Inr ps
                           \<longrightarrow> p \<in> set ps)
                    \<and> (\<forall>e. fst (searchPapers reg fetch options issued) = Inl e
                           \<longrightarrow> list_ex (\<lambda>h. process_hit reg options h = Inl e)
                                 (before @ after))
                    \<and> (list_all (\<lambda>kv. fst kv \<notin> set object_prototype
                                       \<and> toLowerCase (fst kv) = fst kv)
                          (getAllConferences reg)
                        \<longrightarrow> (\<exists>ps. fst (searchPapers reg fetch options issued) = Inr ps
                                  \<and> p \<in> set ps)))))"
proof -
  have out: "fst (searchPapers reg fetch options issued)
      = hits_loop reg options (before @ hit # after) []"
    using fetched ok by (rule searchPapers_ok)
  have out': "fst (searchPapers reg fetch' options issued)
      = hits_loop reg options (before @ after) []"
    using without ok by (rule searchPapers_ok)
  show ?thesis
  proof (intro conjI impI)
    assume m: "matchConference reg (venue hit) = Inr (Some (k, c)) \<and> k \<notin> set cs"
    with cs show none: "process_hit reg options hit = Inr None"
      by (simp add: process_hit_excluded)
    from hits_loop_skip [OF none, of before after "[]"] out out'
    show "fst (searchPapers reg fetch options issued)
        = fst (searchPapers reg fetch' options issued)"
      by simp
  next
    show "\<not> conference_skipped options None"
      by (simp add: conference_skipped_iff)
  next
    assume u: "matchConference reg (venue hit) = Inr None"
    have y: "year_skipped (options\<lparr>conferences := None\<rparr>) y = year_skipped options y" for y
      by (simp add: year_skipped_def)
    show "process_hit reg options hit = process_hit reg (options\<lparr>conferences := None\<rparr>) hit"
      by (simp add: process_hit_unmatched [OF u] y)
  next
    assume u: "matchConference reg (venue hit) = Inr None"
      and ny: "\<not> year_skipped options (parseInt (hit_year hit))"
    from process_hit_unmatched [OF u, of options] ny
    obtain p where p: "process_hit reg options hit = Inr (Some p)" by simp
    have keeps: "\<forall>ps. fst (searchPapers reg fetch options issued) = Inr ps \<longrightarrow> p \<in> set ps"
      using hits_loop_keeps [OF p] out by auto
    have thrown: "\<forall>e. fst (searchPapers reg fetch options issued) = Inl e
        \<longrightarrow> list_ex (\<lambda>h. process_hit reg options h = Inl e) (before @ after)"
    proof (intro allI impI)
      fix e
      assume "fst (searchPapers reg fetch options issued) = Inl e"
      with out have "hits_loop reg options (before @ hit # after) [] = Inl e" by simp
      from hits_loop_thrown [OF this] obtain h where
        h: "h \<in> set (before @ hit # after)" "process_hit reg options h = Inl e" by blast
      with p have "h \<noteq> hit" by auto
      with h show "list_ex (\<lambda>h. process_hit reg options h = Inl e) (before @ after)"
        by (auto simp add: list_ex_iff)
    qed
    have total: "list_all (\<lambda>kv. fst kv \<notin> set object_prototype \<and> toLowerCase (fst kv) = fst kv)
          (getAllConferences reg)
        \<longrightarrow> (\<exists>ps. fst (searchPapers reg fetch options issued) = Inr ps \<and> p \<in> set ps)"
    proof
      assume wf: "list_all (\<lambda>kv. fst kv \<notin> set object_prototype \<and> toLowerCase (fst kv) = fst kv)
          (getAllConferences reg)"
      have "list_all (\<lambda>h. \<exists>r. process_hit reg options h = Inr r) (before @ hit # after)"
        using process_hit_total [OF wf] by (simp add: list_all_iff)
      from hits_loop_total [OF this, of "[]"] out obtain ps where
        "fst (searchPapers reg fetch options issued) = Inr ps" by auto
      with keeps show "\<exists>ps. fst (searchPapers reg fetch options issued) = Inr ps \<and> p \<in> set ps"
        by blast
    qed
    from p keeps thrown total
    show "\<exists>p. process_hit reg options hit = Inr (Some p)
        \<and> (\<forall>ps. fst (searchPapers reg fetch options issued) = Inr ps \<longrightarrow> p \<in> set ps)
        \<and> (\<forall>e. fst (searchPapers reg fetch options issued) = Inl e
               \<longrightarrow> list_ex (\<lambda>h. process_hit reg options h = Inl e) (before @ after))
        \<and> (list_all (\<lambda>kv. fst kv \<notin> set object_prototype \<and> toLowerCase (fst kv) = fst kv)
              (getAllConferences reg)
            \<longrightarrow> (\<exists>ps. fst (searchPapers reg fetch options issued) = Inr ps \<and> p \<in> set ps))"
      by blast
  qed
qed

theorem allow_list_filter_witness:
  "conferences (example_options (Some [''sp'']) None None) = Some [''sp'']
   \<and> [''sp''] \<noteq> []
   \<and> example_fetch [example_hit ''2024'' ''ACM CCS 2024'',
                     example_hit ''2023'' ''Proceedings of WORKSHOP-XYZ 2023'']
        (search_request example_registry (example_options (Some [''sp'']) None None))
      = HttpResponse 200 (Parsed ([] @ example_hit ''2024'' ''ACM CCS 2024''
                           # [example_hit ''2023'' ''Proceedings of WORKSHOP-XYZ 2023'']))
   \<and> example_fetch [example_hit ''2023'' ''Proceedings of WORKSHOP-XYZ 2023'']
        (search_request example_registry (example_options (Some [''sp'']) None None))
      = HttpResponse 200 (Parsed ([] @ [example_hit ''2023'' ''Proceedings of WORKSHOP-XYZ 2023'']))
   \<and> matchConference example_registry (venue (example_hit ''2024'' ''ACM CCS 2024''))
       = Inr (Some (''ccs'', example_ccs))
   \<and> ''ccs'' \<notin> set [''sp'']
   \<and> fst (searchPapers example_registry
        (example_fetch [example_hit ''2024'' ''ACM CCS 2024'',
                        example_hit ''2023'' ''Proceedings of WORKSHOP-XYZ 2023''])
        (example_options (Some [''sp'']) None None) [])
      = fst (searchPapers example_registry
        (example_fetch [example_hit ''2023'' ''Proceedings of WORKSHOP-XYZ 2023''])
        (example_options (Some [''sp'']) None None) [])
   \<and> matchConference example_registry
        (venue (example_hit ''2023'' ''Proceedings of WORKSHOP-XYZ 2023'')) = Inr None
   \<and> \<not> year_skipped (example_options (Some [''sp'']) None None)
          (parseInt (hit_year (example_hit ''2023'' ''Proceedings of WORKSHOP-XYZ 2023'')))
   \<and> fst (searchPapers example_registry
        (example_fetch [example_hit ''2024'' ''ACM CCS 2024'',
                        example_hit ''2023'' ''Proceedings of WORKSHOP-XYZ 2023''])
        (example_options (Some [''sp'']) None None) [])
      = Inr [\<lparr> title = ''A Paper'', authors = [''A. Author''], year = Num 2023,
                conference = ''Proceedings of WORKSHOP-XYZ 2023'',
                conferenceFull = ''Proceedings of WORKSHOP-XYZ 2023'',
                tier = Second, url = None, doi = None, conferenceUrl = Undefined \<rparr>]
   \<and> (\<exists>p. process_hit example_registry (example_options (Some [''sp'']) None None)
             (example_hit ''2023'' ''Proceedings of WORKSHOP-XYZ 2023'') = Inr (Some p)
          \<and> p \<in> set [\<lparr> title = ''A Paper'', authors = [''A. Author''], year = Num 2023,
                conference = ''Proceedings of WORKSHOP-XYZ 2023'',
                conferenceFull = ''Proceedings of WORKSHOP-XYZ 2023'',
                tier = Second, url = None, doi = None, conferenceUrl = Undefined \<rparr>])"
proof -
  let ?o = "example_options (Some [''sp'']) None None"
  let ?h1 = "example_hit ''2024'' ''ACM CCS 2024''"
  let ?h2 = "example_hit ''2023'' ''Proceedings of WORKSHOP-XYZ 2023''"
  let ?p2 = "\<lparr> title = ''A Paper'', authors = [''A. Author''], year = Num 2023,
                conference = ''Proceedings of WORKSHOP-XYZ 2023'',
                conferenceFull = ''Proceedings of WORKSHOP-XYZ 2023'',
                tier = Second, url = None, doi = None, conferenceUrl = Undefined \<rparr>"
  have a: "conferences ?o = Some [''sp'']" by (simp add: example_options_def)
  have b: "[''sp''] \<noteq> []" by simp
  have f1: "example_fetch [?h1, ?h2] (search_request example_registry ?o)
      = HttpResponse 200 (Parsed ([] @ ?h1 # [?h2]))"
    by (simp add: example_fetch_def)
  have f1': "example_fetch [?h2] (search_request example_registry ?o)
      = HttpResponse 200 (Parsed ([] @ [?h2]))"
    by (simp add: example_fetch_def)
  have f2: "example_fetch [?h1, ?h2] (search_request example_registry ?o)
      = HttpResponse 200 (Parsed ([?h1] @ ?h2 # []))"
    by (simp add: example_fetch_def)
  have f2': "example_fetch [?h1] (search_request example_registry ?o)
      = HttpResponse 200 (Parsed ([?h1] @ []))"
    by (simp add: example_fetch_def)
  have ok: "(200::nat) \<le> 200" "(200::nat) \<le> 299" by simp_all
  have m1: "matchConference example_registry (venue ?h1) = Inr (Some (''ccs'', example_ccs))"
    by code_simp
  have k: "''ccs'' \<notin> set [''sp'']" by simp
  have m2: "matchConference example_registry (venue ?h2) = Inr None"
    by code_simp
  have y: "\<not> year_skipped ?o (parseInt (hit_year ?h2))"
    by (simp add: year_skipped_def example_options_def)
  have s: "fst (searchPapers example_registry (example_fetch [?h1, ?h2]) ?o []) = Inr [?p2]"
    by code_simp
  from allow_list_filter
         [where fetch = "example_fetch [?h1, ?h2]" and fetch' = "example_fetch [?h2]"
            and before = "[]" and hit = ?h1 and after = "[?h2]" and reg = example_registry
            and k = "''ccs''" and c = example_ccs and issued = "[]",
          OF a b f1 f1' ok] m1 k
  have r1: "fst (searchPapers example_registry (example_fetch [?h1, ?h2]) ?o [])
      = fst (searchPapers example_registry (example_fetch [?h2]) ?o [])"
    by blast
  from allow_list_filter
         [where fetch = "example_fetch [?h1, ?h2]" and fetch' = "example_fetch [?h1]"
            and before = "[?h1]" and hit = ?h2 and after = "[]" and reg = example_registry
            and k = "''ccs''" and c = example_ccs and issued = "[]",
          OF a b f2 f2' ok] m2 y
  obtain p where "process_hit example_registry ?o ?h2 = Inr (Some p)"
    and "\<forall>ps. fst (searchPapers example_registry (example_fetch [?h1, ?h2]) ?o []) = Inr ps
           \<longrightarrow> p \<in> set ps"
    by blast
  with s have r2: "\<exists>p. process_hit example_registry ?o ?h2 = Inr (Some p) \<and> p \<in> set [?p2]"
    by blast
  from a b f1 f1' m1 k r1 m2 y s r2 show ?thesis by blast
qed

text \<open>
  C6. The paper built for a hit with no matching conference has the raw venue string
  as \<open>conference\<close> and \<open>conferenceFull\<close> and the tier \<open>second\<close>; for a matched hit
  the tier is the entry's, and the two names are the entry's short name and name
  (the registry's display names are non-empty strings).
\<close>

theorem paper_conference_fields:
  assumes "process_hit reg options hit = Inr (Some p)"
  shows "(matchConference reg (venue hit) = Inr None \<longrightarrow>
            conference p = venue hit \<and> conferenceFull p = venue hit \<and> tier p = Second)
       \<and> (matchConference reg (venue hit) = Inr (Some (k, c)) \<longrightarrow>
            tier p = conf_tier c
            \<and> (shortName c \<noteq> [] \<longrightarrow> conference p = shortName c)
            \<and> (name c \<noteq> [] \<longrightarrow> conferenceFull p = name c))"
  using process_hit_Some [OF assms] by (auto simp add: or_else_def)

theorem paper_conference_fields_witness:
  "process_hit example_registry (example_options None None None)
       (example_hit ''2023'' ''Proceedings of WORKSHOP-XYZ 2023'')
     = Inr (Some \<lparr> title = ''A Paper'', authors = [''A. Author''], year = Num 2023,
         conference = ''Proceedings of WORKSHOP-XYZ 2023'',
         conferenceFull = ''Proceedings of WORKSHOP-XYZ 2023'',
         tier = Second, url = None, doi = None, conferenceUrl = Undefined \<rparr>)
   \<and> matchConference example_registry
        (venue (example_hit ''2023'' ''Proceedings of WORKSHOP-XYZ 2023'')) = Inr None
   \<and> process_hit example_registry (example_options None None None)
       (example_hit ''2024'' ''IEEE Symposium on Security and Privacy (SP)'')
     = Inr (Some \<lparr> title = ''A Paper'', authors = [''A. Author''], year = Num 2024,
         conference = ''S&P'', conferenceFull = ''IEEE Symposium on Security and Privacy'',
         tier = Top, url = None, doi = None,
         conferenceUrl = Own ''https://sp2024.ieee-security.org/'' \<rparr>)
   \<and> matchConference example_registry
        (venue (example_hit ''2024'' ''IEEE Symposium on Security and Privacy (SP)''))
       = Inr (Some (''sp'', example_sp))
   \<and> conference \<lparr> title = ''A Paper'', authors = [''A. Author''], year = Num 2023,
         conference = ''Proceedings of WORKSHOP-XYZ 2023'',
         conferenceFull = ''Proceedings of WORKSHOP-XYZ 2023'',
         tier = Second, url = None, doi = None, conferenceUrl = Undefined \<rparr>
       = venue (example_hit ''2023'' ''Proceedings of WORKSHOP-XYZ 2023'')
   \<and> tier \<lparr> title = ''A Paper'', authors = [''A. Author''], year = Num 2024,
         conference = ''S&P'', conferenceFull = ''IEEE Symposium on Security and Privacy'',
         tier = Top, url = None, doi = None,
         conferenceUrl = Own ''https://sp2024.ieee-security.org/'' \<rparr>
       = conf_tier example_sp"
proof -
  let ?o = "example_options None None None"
  let ?h1 = "example_hit ''2023'' ''Proceedings of WORKSHOP-XYZ 2023''"
  let ?h2 = "example_hit ''2024'' ''IEEE Symposium on Security and Privacy (SP)''"
  let ?p1 = "\<lparr> title = ''A Paper'', authors = [''A. Author''], year = Num 2023,
         conference = ''Proceedings of WORKSHOP-XYZ 2023'',
         conferenceFull = ''Proceedings of WORKSHOP-XYZ 2023'',
         tier = Second, url = None, doi = None, conferenceUrl = Undefined \<rparr>"
  let ?p2 = "\<lparr> title = ''A Paper'', authors = [''A. Author''], year = Num 2024,
         conference = ''S&P'', conferenceFull = ''IEEE Symposium on Security and Privacy'',
         tier = Top, url = None, doi = None,
         conferenceUrl = Own ''https://sp2024.ieee-security.org/'' \<rparr>"
  have a1: "process_hit example_registry ?o ?h1 = Inr (Some ?p1)" by code_simp
  have m1: "matchConference example_registry (venue ?h1) = Inr None" by code_simp
  have a2: "process_hit example_registry ?o ?h2 = Inr (Some ?p2)" by code_simp
  have m2: "matchConference example_registry (venue ?h2) = Inr (Some (''sp'', example_sp))"
    by code_simp
  from paper_conference_fields [OF a1, of "''sp''" example_sp] m1
  have r1: "conference ?p1 = venue ?h1" by blast
  from paper_conference_fields [OF a2, of "''sp''" example_sp] m2
  have r2: "tier ?p2 = conf_tier example_sp" by blast
  from a1 m1 a2 m2 r1 r2 show ?thesis by blast
qed

text \<open>
  A returned list is the loop's result on the decoded hits, and each of its papers
  was pushed for one of those hits.
\<close>

lemma searchPapers_hits:
  assumes "fst (searchPapers reg fetch options issued) = Inr papers"
  shows "hits_loop reg options (upstream_hits fetch (search_request reg options)) [] = Inr papers"
  using assms
  by (auto simp add: searchPapers_def upstream_hits_def Let_def
           split: reply.splits body.splits if_splits)

lemma searchPapers_papers:
  assumes "fst (searchPapers reg fetch options issued) = Inr papers" and "p \<in> set papers"
  shows "\<exists>hit \<in> set (upstream_hits fetch (search_request reg options)).
           process_hit reg options hit = Inr (Some p)"
  using hits_loop_papers [OF searchPapers_hits [OF assms(1)] assms(2)] by simp

lemma venueQueries_unresolvable:
  assumes "conferences options = Some cs" "cs \<noteq> []"
      and "list_all (\<lambda>c. map_of (getAllConferences reg) (toLowerCase c) = None) cs"
  shows "venueQueries reg options = []"
proof -
  from assms(1,2) have t: "targetConferences reg options = cs"
    by (cases cs) (simp_all add: targetConferences_def)
  from assms(3) have "\<forall>c \<in> set cs. dblpKey_of reg c = None"
    by (simp add: list_all_iff dblpKey_of_map_of)
  then have "filter truthy_string (map (dblpKey_of reg) cs) = []"
    by (auto simp add: filter_empty_conv truthy_string_def)
  with t show ?thesis by (simp add: venueQueries_def)
qed

text \<open>
  C9. When the explicit conference list is non-empty and none of its keys resolves
  in the registry (whose keys are lower-case): the one upstream request carries the
  keyword and author clauses only, with no venue clause; every hit that the matcher
  maps to a registered conference is skipped by the allow-list check; and every paper
  returned was built for an unmatched hit, with tier \<open>second\<close> and the raw venue
  string as conference and full name.
\<close>

theorem unresolvable_conferences:
  assumes lower: "list_all (\<lambda>kv. toLowerCase (fst kv) = fst kv) (getAllConferences reg)"
      and cs: "conferences options = Some cs" "cs \<noteq> []"
      and unres: "list_all (\<lambda>c. map_of (getAllConferences reg) (toLowerCase c) = None) cs"
  shows "snd (searchPapers reg fetch options issued)
           = issued @ [\<lparr> param_q = join '' '' (spec_keyword_clause options
                                                    @ spec_author_clause options),
                          param_format = ''json'',
                          param_h = param_h (search_request reg options) \<rparr>]
       \<and> (matchConference reg (venue h) = Inr (Some (k, c)) \<longrightarrow>
            process_hit reg options h = Inr None)
       \<and> (fst (searchPapers reg fetch options issued) = Inr papers \<and> p \<in> set papers \<longrightarrow>
            tier p = Second
            \<and> (\<exists>hit \<in> set (upstream_hits fetch (search_request reg options)).
                  process_hit reg options hit = Inr (Some p)
                  \<and> matchConference reg (venue hit) = Inr None
                  \<and> conference p = venue hit \<and> conferenceFull p = venue hit))"
proof (intro conjI impI)
  have "buildDblpQuery reg options
      = join '' '' (spec_keyword_clause options @ spec_author_clause options)"
    by (simp add: buildDblpQuery_parts venueQueries_unresolvable [OF cs unres]
          spec_venue_clause_def)
  then have "search_request reg options
      = \<lparr> param_q = join '' '' (spec_keyword_clause options @ spec_author_clause options),
          param_format = ''json'', param_h = param_h (search_request reg options) \<rparr>"
    by (simp add: search_request_def)
  with searchPapers_issued [of reg fetch options issued]
  show "snd (searchPapers reg fetch options issued)
           = issued @ [\<lparr> param_q = join '' '' (spec_keyword_clause options
                                                    @ spec_author_clause options),
                          param_format = ''json'',
                          param_h = param_h (search_request reg options) \<rparr>]"
    by simp
next
  have excl: "process_hit reg options x = Inr None"
    if m: "matchConference reg (venue x) = Inr (Some (k', c'))" for x k' c'
  proof -
    from matched_key_resolves [OF lower m] unres have "k' \<notin> set cs"
      by (auto simp add: list_all_iff)
    with cs m show ?thesis by (simp add: process_hit_excluded)
  qed
  {
    assume "matchConference reg (venue h) = Inr (Some (k, c))"
    then show "process_hit reg options h = Inr None" by (rule excl)
  }
  assume "fst (searchPapers reg fetch options issued) = Inr papers \<and> p \<in> set papers"
  then obtain hit where
    hit: "hit \<in> set (upstream_hits fetch (search_request reg options))"
    and ph: "process_hit reg options hit = Inr (Some p)"
    using searchPapers_papers by blast
  from process_hit_Some [OF ph] obtain matched where
    mc: "matchConference reg (venue hit) = Inr matched"
    and cf: "conference p = (case matched of None \<Rightarrow> venue hit
                                  | Some m \<Rightarrow> or_else (shortName (snd m)) (venue hit))"
    and cff: "conferenceFull p = (case matched of None \<Rightarrow> venue hit
                                  | Some m \<Rightarrow> or_else (name (snd m)) (venue hit))"
    and ti: "tier p = (case matched of None \<Rightarrow> Second | Some m \<Rightarrow> conf_tier (snd m))"
    by blast
  have none: "matched = None"
  proof (cases matched)
    case None
    then show ?thesis .
  next
    case (Some m)
    with mc have "matchConference reg (venue hit) = Inr (Some (fst m, snd m))" by simp
    from excl [OF this] ph show ?thesis by simp
  qed
  with ti show "tier p = Second" by simp
  from none mc cf cff hit ph
  show "\<exists>hit \<in> set (upstream_hits fetch (search_request reg options)).
                  process_hit reg options hit = Inr (Some p)
                  \<and> matchConference reg (venue hit) = Inr None
                  \<and> conference p = venue hit \<and> conferenceFull p = venue hit"
    by auto
qed


theorem unresolvable_conferences_witness:
  "list_all (\<lambda>kv. toLowerCase (fst kv) = fst kv) (getAllConferences example_registry)
   \<and> conferences (example_options (Some [''oakland'', ''constructor'']) None None)
       = Some [''oakland'', ''constructor'']
   \<and> [''oakland'', ''constructor''] \<noteq> []
   \<and> list_all (\<lambda>c. map_of (getAllConferences example_registry) (toLowerCase c) = None)
        [''oakland'', ''constructor'']
   \<and> searchPapers example_registry
        (example_fetch [example_hit ''2024'' ''ACM CCS 2024'',
                        example_hit ''2023'' ''Proceedings of WORKSHOP-XYZ 2023''])
        (example_options (Some [''oakland'', ''constructor'']) None None) []
       = (Inr [\<lparr> title = ''A Paper'', authors = [''A. Author''], year = Num 2023,
                 conference = ''Proceedings of WORKSHOP-XYZ 2023'',
                 conferenceFull = ''Proceedings of WORKSHOP-XYZ 2023'',
                 tier = Second, url = None, doi = None, conferenceUrl = Undefined \<rparr>],
          [\<lparr> param_q = ''fuzzing'', param_format = ''json'', param_h = ''50'' \<rparr>])
   \<and> process_hit example_registry (example_options (Some [''oakland'', ''constructor'']) None None)
        (example_hit ''2024'' ''ACM CCS 2024'') = Inr None"
proof -
  let ?o = "example_options (Some [''oakland'', ''constructor'']) None None"
  let ?h1 = "example_hit ''2024'' ''ACM CCS 2024''"
  let ?h2 = "example_hit ''2023'' ''Proceedings of WORKSHOP-XYZ 2023''"
  have l: "list_all (\<lambda>kv. toLowerCase (fst kv) = fst kv) (getAllConferences example_registry)"
    by code_simp
  have c: "conferences ?o = Some [''oakland'', ''constructor'']"
    by (simp add: example_options_def)
  have n: "[''oakland'', ''constructor''] \<noteq> []" by simp
  have u: "list_all (\<lambda>c. map_of (getAllConferences example_registry) (toLowerCase c) = None)
        [''oakland'', ''constructor'']"
    by code_simp
  have m: "matchConference example_registry (venue ?h1) = Inr (Some (''ccs'', example_ccs))"
    by code_simp
  from unresolvable_conferences [OF l c n u, of _ _ ?h1 "''ccs''" example_ccs] m
  have r: "process_hit example_registry ?o ?h1 = Inr None" by blast
  have s: "searchPapers example_registry (example_fetch [?h1, ?h2]) ?o []
       = (Inr [\<lparr> title = ''A Paper'', authors = [''A. Author''], year = Num 2023,
                 conference = ''Proceedings of WORKSHOP-XYZ 2023'',
                 conferenceFull = ''Proceedings of WORKSHOP-XYZ 2023'',
                 tier = Second, url = None, doi = None, conferenceUrl = Undefined \<rparr>],
          [\<lparr> param_q = ''fuzzing'', param_format = ''json'', param_h = ''50'' \<rparr>])"
    by code_simp
  from l c n u s r show ?thesis by blast
qed

section \<open>The year filter\<close>

text \<open>
  C2 on a hit whose year text is not numeric. \<^verbatim>\<open>parseInt\<close> gives \<open>NaN\<close>, both
  comparisons of the filter are false on \<open>NaN\<close>, and the paper is returned with the
  year \<open>NaN\<close> although \<open>yearFrom = 2020\<close> and \<open>yearTo = 2024\<close> were supplied.
\<close>

theorem year_filter_non_numeric:
  "searchPapers example_registry (example_fetch [example_hit ''n.d.'' ''ACM CCS 2024''])
     (example_options None (Some 2020) (Some 2024)) []
   = (Inr [\<lparr> title = ''A Paper'', authors = [''A. Author''], year = NaN,
             conference = ''CCS'',
             conferenceFull = ''ACM Conference on Computer and Communications Security'',
             tier = Top, url = None, doi = None, conferenceUrl = Undefined \<rparr>],
      [\<lparr> param_q = ''fuzzing venue:sp:|venue:uss:|venue:ccs:|venue:ndss:|venue:acsac:|venue:raid:|venue:esorics:'',
          param_format = ''json'', param_h = ''50'' \<rparr>])"
  by code_simp

text \<open>
  What the filter does guarantee: with two non-zero bounds, every returned paper whose
  year is a number lies within them.
\<close>

lemma year_skipped_bounds:
  assumes "yearFrom options = Some f" "yearTo options = Some t" "f \<noteq> 0" "t \<noteq> 0"
      and "\<not> year_skipped options (Num y)"
  shows "f \<le> y \<and> y \<le> t"
  using assms by (simp add: year_skipped_def)

theorem year_filter_numeric:
  assumes "yearFrom options = Some f" and "yearTo options = Some t"
      and "f \<noteq> 0" and "t \<noteq> 0"
      and "fst (searchPapers reg fetch options issued) = Inr papers"
      and "p \<in> set papers" and "year p = Num y"
  shows "f \<le> y \<and> y \<le> t"
proof -
  from searchPapers_papers [OF assms(5,6)] obtain hit where
    "process_hit reg options hit = Inr (Some p)" by blast
  from process_hit_Some [OF this] assms(7)
  have "\<not> year_skipped options (Num y)" by simp
  with assms(1-4) show ?thesis by (rule year_skipped_bounds)
qed

theorem year_filter_numeric_witness:
  "yearFrom (example_options None (Some 2020) (Some 2024)) = Some 2020
   \<and> yearTo (example_options None (Some 2020) (Some 2024)) = Some 2024
   \<and> fst (searchPapers example_registry
        (example_fetch [example_hit ''2019'' ''ACM CCS 2019'', example_hit ''2024'' ''NDSS 2024'',
                        example_hit ''2025'' ''NDSS 2025''])
        (example_options None (Some 2020) (Some 2024)) [])
       = Inr [\<lparr> title = ''A Paper'', authors = [''A. Author''], year = Num 2024,
             conference = ''NDSS'',
             conferenceFull = ''Network and Distributed System Security Symposium'',
             tier = Top, url = None, doi = None, conferenceUrl = Undefined \<rparr>]
   \<and> (2020::int) \<le> 2024 \<and> (2024::int) \<le> 2024"
proof -
  let ?o = "example_options None (Some 2020) (Some 2024)"
  let ?p = "\<lparr> title = ''A Paper'', authors = [''A. Author''], year = Num 2024,
             conference = ''NDSS'',
             conferenceFull = ''Network and Distributed System Security Symposium'',
             tier = Top, url = None, doi = None, conferenceUrl = Undefined \<rparr>"
  let ?f = "example_fetch [example_hit ''2019'' ''ACM CCS 2019'', example_hit ''2024'' ''NDSS 2024'',
                        example_hit ''2025'' ''NDSS 2025'']"
  have a: "yearFrom ?o = Some 2020" by (simp add: example_options_def)
  have b: "yearTo ?o = Some 2024" by (simp add: example_options_def)
  have s: "fst (searchPapers example_registry ?f ?o []) = Inr [?p]" by code_simp
  have m: "?p \<in> set [?p]" by simp
  have y: "year ?p = Num 2024" by simp
  have "(2020::int) \<noteq> 0" "(2024::int) \<noteq> 0" by simp_all
  from year_filter_numeric [OF a b this s m y] a b s show ?thesis by blast
qed

section \<open>Lookups by key\<close>

text \<open>
  C5 on the key \<^verbatim>\<open>constructor\<close>, which is not in the registry. The property read
  finds the inherited \<^verbatim>\<open>Object.prototype.constructor\<close>, the test \<^verbatim>\<open>!conf\<close> is
  false, no unknown-conference error is raised, and one upstream request (with an
  empty query) is issued.
\<close>

theorem searchByConference_constructor:
  "map_of (getAllConferences example_registry) ''constructor'' = None
   \<and> searchByConference example_registry (example_fetch []) ''constructor'' 2024 []
     = (Inr [], [\<lparr> param_q = [], param_format = ''json'', param_h = ''200'' \<rparr>])"
  by code_simp

text \<open>
  What \<open>searchByConference\<close> does in general: when the lookup reads \<open>undefined\<close> it
  fails with the unknown-conference error and issues no request; otherwise it is
  \<open>searchPapers\<close> on the one key, the year as both bounds and the limit 200.
\<close>

theorem searchByConference_cases:
  "(getConferenceInfo reg key = Undefined \<longrightarrow>
      searchByConference reg fetch key y issued = (Inl (UnknownConference key), issued))
   \<and> (getConferenceInfo reg key \<noteq> Undefined \<longrightarrow>
      searchByConference reg fetch key y issued
        = searchPapers reg fetch
            \<lparr> keyword = None, author = None, yearFrom = Some y, yearTo = Some y,
              conferences = Some [key], opt_tier = None, limit = Some 200 \<rparr> issued)"
  by (cases "getConferenceInfo reg key") (simp_all add: searchByConference_def)

theorem searchByConference_cases_witness:
  "getConferenceInfo example_registry ''doesnotexist'' = Undefined
   \<and> searchByConference example_registry (example_fetch []) ''doesnotexist'' 2024 []
       = (Inl (UnknownConference ''doesnotexist''), [])
   \<and> getConferenceInfo example_registry ''sp'' \<noteq> Undefined
   \<and> searchByConference example_registry (example_fetch []) ''sp'' 2024 []
       = (Inr [], [\<lparr> param_q = ''venue:sp:'', param_format = ''json'', param_h = ''200'' \<rparr>])"
proof -
  have a: "getConferenceInfo example_registry ''doesnotexist'' = Undefined" by code_simp
  have b: "getConferenceInfo example_registry ''sp'' \<noteq> Undefined" by code_simp
  from searchByConference_cases [of example_registry "''doesnotexist''" "example_fetch []" 2024 "[]"] a
  have r1: "searchByConference example_registry (example_fetch []) ''doesnotexist'' 2024 []
       = (Inl (UnknownConference ''doesnotexist''), [])" by blast
  from searchByConference_cases [of example_registry "''sp''" "example_fetch []" 2024 "[]"] b
  have r2: "searchByConference example_registry (example_fetch []) ''sp'' 2024 []
       = searchPapers example_registry (example_fetch [])
            \<lparr> keyword = None, author = None, yearFrom = Some 2024, yearTo = Some 2024,
              conferences = Some [''sp''], opt_tier = None, limit = Some 200 \<rparr> []" by blast
  have e: "searchPapers example_registry (example_fetch [])
            \<lparr> keyword = None, author = None, yearFrom = Some 2024, yearTo = Some 2024,
              conferences = Some [''sp''], opt_tier = None, limit = Some 200 \<rparr> []
       = (Inr [], [\<lparr> param_q = ''venue:sp:'', param_format = ''json'', param_h = ''200'' \<rparr>])"
    by code_simp
  from a b r1 r2 e show ?thesis by simp
qed

text \<open>
  C7 on unknown keys. \<^verbatim>\<open>constructor\<close> and \<^verbatim>\<open>__proto__\<close> are not registry keys, yet
  \<open>getConferenceInfo\<close> does not return \<open>undefined\<close> for them: it returns the value
  inherited from \<^verbatim>\<open>Object.prototype\<close>. An unknown key that names no inherited
  property reads \<open>undefined\<close>.
\<close>

theorem getConferenceInfo_inherited:
  "map_of (getAllConferences example_registry) ''constructor'' = None
   \<and> getConferenceInfo example_registry ''constructor'' = Inherited
   \<and> getConferenceInfo example_registry ''__proto__'' = Inherited
   \<and> getConferenceInfo example_registry ''doesnotexist'' = Undefined"
  by code_simp

text \<open>
  What holds of the lookup: on a registry with lower-case keys, a registry key and
  its upper-cased form both return the key's own entry; and a key that is neither
  registered nor the name of an inherited property reads \<open>undefined\<close>.
\<close>

theorem getConferenceInfo_case_insensitive:
  assumes "list_all (\<lambda>kv. toLowerCase (fst kv) = fst kv) (getAllConferences reg)"
      and "map_of (getAllConferences reg) k = Some conf"
  shows "getConferenceInfo reg k = Own conf \<and> getConferenceInfo reg (toUpperCase k) = Own conf"
proof -
  from assms(2) have "(k, conf) \<in> set (getAllConferences reg)" by (rule map_of_SomeD)
  with assms(1) have "toLowerCase k = k" by (auto simp add: list_all_iff)
  with assms(2) show ?thesis
    by (simp add: getConferenceInfo_def get_property_def toLowerCase_toUpperCase)
qed

theorem getConferenceInfo_case_insensitive_witness:
  "list_all (\<lambda>kv. toLowerCase (fst kv) = fst kv) (getAllConferences example_registry)
   \<and> map_of (getAllConferences example_registry) ''usenix'' = Some example_usenix
   \<and> toUpperCase ''usenix'' = ''USENIX''
   \<and> getConferenceInfo example_registry ''usenix'' = Own example_usenix
   \<and> getConferenceInfo example_registry ''USENIX'' = Own example_usenix"
proof -
  have a: "list_all (\<lambda>kv. toLowerCase (fst kv) = fst kv) (getAllConferences example_registry)"
    by code_simp
  have b: "map_of (getAllConferences example_registry) ''usenix'' = Some example_usenix"
    by code_simp
  have c: "toUpperCase ''usenix'' = ''USENIX''" by code_simp
  from getConferenceInfo_case_insensitive [OF a b] a b c show ?thesis by simp
qed

theorem getConferenceInfo_unknown:
  assumes "map_of (getAllConferences reg) (toLowerCase key) = None"
      and "toLowerCase key \<notin> set object_prototype"
  shows "getConferenceInfo reg key = Undefined"
  using assms by (simp add: getConferenceInfo_def get_property_def)

end
